theory Spec2Isabelle
  imports Main "HOL-Library.Word"
begin

unbundle bit_operations_syntax

section \<open>The AT channel of the FreeRTOS port\<close>

text \<open>
  The development embeds the channel coordinator and the command facade of the
  FreeRTOS port (the file that defines \<^verbatim>\<open>struct at_freertos\<close> with the
  \<^verbatim>\<open>response[AT_BUF_SIZE]\<close> array, \<^verbatim>\<open>at_send_hex\<close> and \<^verbatim>\<open>at_config\<close>).

  A C \<^verbatim>\<open>char\<close> is an 8-bit word; a buffer or a string is the list of its bytes.
  The calls the channel makes into code that is not part of the file (the parser, the
  UART driver, the RTOS) are recorded, in order, in a trace kept in the channel state;
  what the outside world answers (the number of bytes the UART accepts, what the reader
  task does while the caller sleeps on the semaphore) is supplied by an environment.
\<close>

subsection \<open>Data model\<close>

type_synonym c_char = "8 word"

definition ascii :: "string \<Rightarrow> c_char list" where
  "ascii str = map of_char str"

text \<open>
  Modelled from the spec: the enumeration \<^verbatim>\<open>at_response_type\<close> is declared in
  \<^verbatim>\<open>attentive/parser.h\<close>, which is not among the sources. A classification is
  the C integer value of the enumerator. The classification \<^verbatim>\<open>Unknown\<close> means
  ``no decision; try the next scanner''; \<^verbatim>\<open>scan_line\<close> starts from it and tests
  for it with \<^verbatim>\<open>!type\<close>, so it is the enumerator of value zero.
\<close>

type_synonym at_response_type = int

definition AT_RESPONSE_UNKNOWN :: at_response_type where
  "AT_RESPONSE_UNKNOWN = 0"

text \<open>
  \<^verbatim>\<open>at_line_scanner_t\<close>: a scanner receives the line (\<^verbatim>\<open>len\<close> bytes) and
  the opaque argument, which the model leaves inside the function.
\<close>

type_synonym at_line_scanner_t = "c_char list \<Rightarrow> at_response_type"

text \<open>\<^verbatim>\<open>struct at_callbacks\<close>; the URC handler plays no part in what follows.\<close>

record at_callbacks =
  cbs_scan_line :: "at_line_scanner_t option"

text \<open>The calls that leave the file, as they appear in the trace.\<close>

datatype effect =
    TaskDelay "32 word"           \<comment> \<open>\<^verbatim>\<open>vTaskDelay(priv->delay)\<close>, in ticks\<close>
  | TaskDelayMs nat               \<comment> \<open>\<^verbatim>\<open>vTaskDelay(pdMS_TO_TICKS(ms))\<close>\<close>
  | ParserAwaitResponse           \<comment> \<open>\<^verbatim>\<open>at_parser_await_response\<close>\<close>
  | ParserShowResidual            \<comment> \<open>\<^verbatim>\<open>at_parser_show_residual\<close>\<close>
  | ParserReset                   \<comment> \<open>\<^verbatim>\<open>at_parser_reset\<close>\<close>
  | UartWrite "c_char list" nat   \<comment> \<open>\<^verbatim>\<open>ops->write(data, size)\<close> and the count it returned\<close>
  | SemPoll                       \<comment> \<open>\<^verbatim>\<open>xSemaphoreTake(xSem, 0)\<close>\<close>
  | SemWait                       \<comment> \<open>\<^verbatim>\<open>xSemaphoreTake(xSem, pdMS_TO_TICKS(1000))\<close>\<close>

text \<open>
  \<^verbatim>\<open>struct at_freertos\<close>, with the fields of the embedded \<^verbatim>\<open>struct at\<close>
  that the channel reads. \<^verbatim>\<open>response\<close> is the array
  \<^verbatim>\<open>char response[AT_BUF_SIZE]\<close>: its length is \<^verbatim>\<open>AT_BUF_SIZE\<close>, a macro whose
  definition is not among the sources. \<^verbatim>\<open>timeout\<close> and \<^verbatim>\<open>delay\<close> are C
  \<^verbatim>\<open>int\<close>s of the 32-bit target. \<^verbatim>\<open>xSem\<close> is the binary semaphore: true when
  it has been given and not yet taken.
\<close>

record at_freertos =
  cbs :: "at_callbacks option"
  command_scanner :: "at_line_scanner_t option"
  timeout :: "32 word"
  delay :: "32 word"
  response :: "c_char list"
  xSem :: bool
  running :: bool
  is_open :: bool
  busy :: bool
  waiting :: bool
  trace :: "effect list"

text \<open>
  What the reader task and the other tasks do while the caller is blocked in one
  one-second wait on the semaphore: nothing that concerns the channel, the parser
  completing a response and calling \<^verbatim>\<open>handle_response\<close> with it, or
  \<^verbatim>\<open>at_close\<close> being called.
\<close>

datatype reader_event = Quiet | Delivers "c_char list" | Closes

text \<open>
  The environment. \<open>uart_write\<close> answers a write, given everything the channel has
  done so far and the bytes offered, with the number of bytes accepted. \<open>reader\<close>
  says what happens during the \<open>k\<close>-th one-second wait (counted over the life of the
  channel, see \<open>elapsed\<close>).
\<close>

record environment =
  uart_write :: "effect list \<Rightarrow> c_char list \<Rightarrow> nat"
  reader :: "nat \<Rightarrow> reader_event"

definition emit :: "effect \<Rightarrow> at_freertos \<Rightarrow> at_freertos" where
  "emit e s = s\<lparr>trace := trace s @ [e]\<rparr>"

definition elapsed :: "effect list \<Rightarrow> nat" where
  "elapsed tr = length (filter (\<lambda>e. e = SemWait) tr)"

definition uart_writes :: "effect list \<Rightarrow> c_char list list" where
  "uart_writes tr = concat (map (\<lambda>e. case e of UartWrite d n \<Rightarrow> [d] | _ \<Rightarrow> []) tr)"

definition parser_calls :: "effect list \<Rightarrow> effect list" where
  "parser_calls tr = filter (\<lambda>e. e = ParserAwaitResponse \<or> e = ParserShowResidual \<or> e = ParserReset) tr"

subsection \<open>Parser callbacks\<close>

text \<open>
  \<^verbatim>\<open>handle_response(buf, len, arg)\<close>: \<open>buf\<close> is the \<open>len\<close> bytes the parser
  hands over. \<^verbatim>\<open>AT_BUF_SIZE\<close> is read off the array.
\<close>

definition handle_response :: "c_char list \<Rightarrow> at_freertos \<Rightarrow> at_freertos" where
  "handle_response buf priv =
     (let AT_BUF_SIZE = length (response priv);
          len = (if length buf < AT_BUF_SIZE - 1 then length buf else AT_BUF_SIZE - 1)
      in priv\<lparr>response := (take len buf @ drop len (response priv))[len := 0],
              waiting := False,
              xSem := True\<rparr>)"

text \<open>
  \<^verbatim>\<open>scan_line\<close>. Beside the classification the model returns which scanners were
  called, in order.
\<close>

datatype scanner_id = CommandScanner | DefaultScanner

definition scan_line :: "at_freertos \<Rightarrow> c_char list \<Rightarrow> at_response_type \<times> scanner_id list" where
  "scan_line at line =
     (let r0 = (AT_RESPONSE_UNKNOWN, []);
          r1 = (case command_scanner at of
                  Some scanner \<Rightarrow> (scanner line, snd r0 @ [CommandScanner])
                | None \<Rightarrow> r0)
      in if fst r1 = 0 \<and> cbs at \<noteq> None \<and> cbs_scan_line (the (cbs at)) \<noteq> None
         then (the (cbs_scan_line (the (cbs at))) line, snd r1 @ [DefaultScanner])
         else r1)"

text \<open>
  The classification rule in the words of the specification: the scanners that are
  installed are asked in order, and the first answer other than \<^verbatim>\<open>Unknown\<close>
  wins.
\<close>

fun first_decision :: "(scanner_id \<times> at_line_scanner_t) list \<Rightarrow> c_char list
    \<Rightarrow> at_response_type \<times> scanner_id list" where
  "first_decision [] line = (AT_RESPONSE_UNKNOWN, [])"
| "first_decision ((n, f) # fs) line =
     (if f line \<noteq> AT_RESPONSE_UNKNOWN then (f line, [n])
      else (case first_decision fs line of (t, ns) \<Rightarrow> (t, n # ns)))"

definition installed_scanners :: "at_freertos \<Rightarrow> (scanner_id \<times> at_line_scanner_t) list" where
  "installed_scanners at =
     (case command_scanner at of Some f \<Rightarrow> [(CommandScanner, f)] | None \<Rightarrow> []) @
     (case cbs at of
        Some c \<Rightarrow> (case cbs_scan_line c of Some g \<Rightarrow> [(DefaultScanner, g)] | None \<Rightarrow> [])
      | None \<Rightarrow> [])"

subsection \<open>The channel coordinator\<close>

text \<open>\<^verbatim>\<open>at_set_command_scanner\<close> and \<^verbatim>\<open>at_set_timeout\<close>.\<close>

definition at_set_command_scanner :: "at_freertos \<Rightarrow> at_line_scanner_t option \<Rightarrow> at_freertos" where
  "at_set_command_scanner at scanner = at\<lparr>command_scanner := scanner\<rparr>"

definition at_set_timeout :: "at_freertos \<Rightarrow> 32 word \<Rightarrow> at_freertos" where
  "at_set_timeout priv t = priv\<lparr>timeout := t\<rparr>"

text \<open>
  One \<^verbatim>\<open>xSemaphoreTake(priv->xSem, pdMS_TO_TICKS(1000))\<close>. A semaphore that has
  been given is taken at once. Otherwise the caller sleeps, and the environment says
  what happens meanwhile: a delivered response runs \<open>handle_response\<close>, whose
  \<^verbatim>\<open>xSemaphoreGive\<close> ends the wait with success; a close clears the open flag and
  the wait runs out.
\<close>

definition xSemaphoreTake_1s :: "environment \<Rightarrow> at_freertos \<Rightarrow> bool \<times> at_freertos" where
  "xSemaphoreTake_1s env priv =
     (let priv1 = emit SemWait priv
      in if xSem priv then (True, priv1\<lparr>xSem := False\<rparr>)
         else (case reader env (elapsed (trace priv)) of
                 Quiet \<Rightarrow> (False, priv1)
               | Delivers buf \<Rightarrow> (True, (handle_response buf priv1)\<lparr>xSem := False\<rparr>)
               | Closes \<Rightarrow> (False, priv1\<lparr>is_open := False\<rparr>)))"

text \<open>
  The loop \<^verbatim>\<open>while (timeout-- && priv->open && priv->waiting)\<close> of
  \<^verbatim>\<open>_at_command\<close>, with its \<^verbatim>\<open>break\<close>. The counter is a 32-bit
  \<^verbatim>\<open>int\<close>; the decrement wraps around, so that a negative time-out counts down
  through the negative numbers.
\<close>

function wait_for_response :: "environment \<Rightarrow> 32 word \<Rightarrow> at_freertos \<Rightarrow> at_freertos" where
  "wait_for_response env t priv =
     (if t \<noteq> 0 \<and> is_open priv \<and> waiting priv then
        (case xSemaphoreTake_1s env priv of
           (True, priv') \<Rightarrow> priv'
         | (False, priv') \<Rightarrow> wait_for_response env (t - 1) priv')
      else priv)"
  by pat_completeness auto
termination
  by (relation "measure (\<lambda>(env, t, priv). unat t)") (auto simp: unat_minus_one unat_gt_0)

text \<open>
  \<^verbatim>\<open>_at_command(priv, data, size)\<close>; \<open>data\<close> is the \<open>size\<close> bytes to send.
  The result is \<open>None\<close> for \<^verbatim>\<open>NULL\<close> and otherwise the contents of the array
  \<^verbatim>\<open>priv->response\<close> that the returned pointer designates.
\<close>

definition priv_at_command :: "environment \<Rightarrow> at_freertos \<Rightarrow> c_char list
    \<Rightarrow> c_char list option \<times> at_freertos" where
  "priv_at_command env priv data =
     (if \<not> is_open priv then (None, priv)
      else
        let priv1 = (if delay priv \<noteq> 0 then emit (TaskDelay (delay priv)) priv else priv);
            priv2 = emit ParserAwaitResponse priv1;
            priv3 = emit (UartWrite data (uart_write env (trace priv2) data)) priv2;
            priv4 = priv3\<lparr>waiting := True\<rparr>;
            priv5 = (emit SemPoll priv4)\<lparr>xSem := False\<rparr>;
            priv6 = wait_for_response env (timeout priv5) priv5;
            (result, priv7) =
              (if \<not> is_open priv6 then (None, priv6)
               else if waiting priv6 then
                 (None, emit ParserReset (emit ParserShowResidual priv6))
               else (Some (response priv6), priv6))
        in (result, priv7\<lparr>command_scanner := None\<rparr>))"

subsection \<open>The command facade\<close>

definition AT_COMMAND_LENGTH :: nat where
  "AT_COMMAND_LENGTH = 80"

text \<open>
  \<^verbatim>\<open>vsnprintf(buf, n, format, ...)\<close> and \<^verbatim>\<open>snprintf\<close>: \<open>text\<close> is the
  complete expansion of the format. The buffer receives at most \<open>n - 1\<close> of its bytes
  (and a NUL); the value returned is the length of the complete expansion.
\<close>

definition vsnprintf :: "nat \<Rightarrow> c_char list \<Rightarrow> c_char list \<times> int" where
  "vsnprintf n text = (take (n - 1) text, int (length text))"

text \<open>\<^verbatim>\<open>at_command(at, format, ...)\<close>, given the expansion of the format.\<close>

definition at_command :: "environment \<Rightarrow> at_freertos \<Rightarrow> c_char list
    \<Rightarrow> c_char list option \<times> at_freertos" where
  "at_command env priv text =
     (let (line, len) = vsnprintf (AT_COMMAND_LENGTH - 1) text
      in if len \<ge> int (AT_COMMAND_LENGTH - 1) then (None, priv)
         else priv_at_command env priv (take (nat len) line @ [0x0D]))"

definition at_command_raw :: "environment \<Rightarrow> at_freertos \<Rightarrow> c_char list
    \<Rightarrow> c_char list option \<times> at_freertos" where
  "at_command_raw env priv data = priv_at_command env priv data"

text \<open>\<^verbatim>\<open>_at_send(priv, data, size)\<close>.\<close>

definition priv_at_send :: "environment \<Rightarrow> at_freertos \<Rightarrow> c_char list \<Rightarrow> bool \<times> at_freertos" where
  "priv_at_send env priv data =
     (if \<not> is_open priv then (False, priv)
      else
        let n = uart_write env (trace priv) data
        in (n = length data, emit (UartWrite data n) priv))"

text \<open>
  \<^verbatim>\<open>byte_to_hex(byte, hex)\<close>; the result is \<^verbatim>\<open>hex[0], hex[1]\<close>. The
  \<^verbatim>\<open>char\<close> is promoted to \<^verbatim>\<open>int\<close> as a signed value and shifted
  arithmetically; the four bits kept by each mask are the same when \<^verbatim>\<open>char\<close>
  is unsigned (\<open>nibbles_unsigned\<close> below).
\<close>

definition hex_char :: "int \<Rightarrow> c_char" where
  "hex_char h = (if h < 10 then word_of_int (0x30 + h) else word_of_int (0x41 + h - 10))"

definition byte_to_hex :: "c_char \<Rightarrow> c_char list" where
  "byte_to_hex byte =
     (let h1 = sint byte AND 0x0F;
          hex1 = hex_char h1;
          h0 = drop_bit 4 (sint byte) AND 0x0F;
          hex0 = hex_char h0
      in [hex0, hex1])"

text \<open>
  \<^verbatim>\<open>at_send_hex(at, data, size)\<close>; \<open>data\<close> is the \<open>size\<close> bytes. The loop
  variable \<^verbatim>\<open>oset\<close> is a natural number: a buffer of the 32-bit target is
  shorter than \<open>2 ^ 31\<close> bytes, so the C \<^verbatim>\<open>int\<close> does not overflow.
\<close>

function at_send_hex_loop :: "environment \<Rightarrow> at_freertos \<Rightarrow> c_char list \<Rightarrow> nat
    \<Rightarrow> bool \<times> at_freertos" where
  "at_send_hex_loop env priv data oset =
     (if oset < length data then
        let len0 = AT_COMMAND_LENGTH div 2;
            len = (if length data - oset > len0 then len0 else length data - oset);
            line = concat (map (\<lambda>i. byte_to_hex (data ! (oset + i))) [0..<len])
        in (case priv_at_send env priv line of
              (False, priv') \<Rightarrow> (False, priv')
            | (True, priv') \<Rightarrow> at_send_hex_loop env priv' data (oset + len))
      else (True, priv))"
  by pat_completeness auto
termination
  by (relation "measure (\<lambda>(env, priv, data, oset). length data - oset)")
     (auto simp: AT_COMMAND_LENGTH_def)

definition at_send_hex :: "environment \<Rightarrow> at_freertos \<Rightarrow> c_char list \<Rightarrow> bool \<times> at_freertos" where
  "at_send_hex env priv data = at_send_hex_loop env priv data 0"

text \<open>
  \<^verbatim>\<open>strlen\<close> and \<^verbatim>\<open>strncmp\<close> of the C library, on byte lists. A list that
  ends without a NUL is a string whose NUL follows its last byte.
\<close>

definition strlen :: "c_char list \<Rightarrow> nat" where
  "strlen s = length (takeWhile (\<lambda>c. c \<noteq> 0) s)"

fun strncmp :: "c_char list \<Rightarrow> c_char list \<Rightarrow> nat \<Rightarrow> int" where
  "strncmp s1 s2 0 = 0"
| "strncmp s1 s2 (Suc n) =
     (let c1 = (case s1 of [] \<Rightarrow> 0 | c # _ \<Rightarrow> c);
          c2 = (case s2 of [] \<Rightarrow> 0 | c # _ \<Rightarrow> c)
      in if c1 \<noteq> c2 then uint c1 - uint c2
         else if c1 = 0 then 0
         else strncmp (tl s1) (tl s2) n)"

text \<open>
  \<^verbatim>\<open>at_config(at, option, value, attempts)\<close>; \<open>option\<close> and \<open>value\<close> are the
  contents of the two strings. The \<^verbatim>\<open>for\<close> loop is the recursion on \<open>i\<close>.
\<close>

function at_config_loop :: "environment \<Rightarrow> at_freertos \<Rightarrow> c_char list \<Rightarrow> c_char list
    \<Rightarrow> int \<Rightarrow> int \<Rightarrow> int \<times> at_freertos" where
  "at_config_loop env at option value attempts i =
     (if i < attempts then
        (case at_command env at (ascii ''AT+'' @ option @ ascii ''?'') of
           (None, at1) \<Rightarrow> (- 2, at1)
         | (Some resp, at1) \<Rightarrow>
             (let (expected, n) = vsnprintf 32 (ascii ''+'' @ option @ ascii '': '' @ value)
              in if n \<ge> 32 then (- 1, at1)
                 else if strncmp resp expected (strlen expected) = 0 then (0, at1)
                 else (case at_command env at1 (ascii ''AT+'' @ option @ ascii ''='' @ value) of
                         (r, at2) \<Rightarrow>
                           at_config_loop env (emit (TaskDelayMs 1000) at2) option value
                             attempts (i + 1))))
      else (0, at))"
  by pat_completeness auto
termination
  by (relation "measure (\<lambda>(env, at, option, value, attempts, i). nat (attempts - i))") auto

definition at_config :: "environment \<Rightarrow> at_freertos \<Rightarrow> c_char list \<Rightarrow> c_char list \<Rightarrow> int
    \<Rightarrow> int \<times> at_freertos" where
  "at_config env at option value attempts = at_config_loop env at option value attempts 0"

subsection \<open>Hexadecimal encoding and chunking, stated directly\<close>

text \<open>
  The encoding of a byte as two characters out of \<^verbatim>\<open>0123456789ABCDEF\<close>, the
  more significant nibble first; the cutting of a list into consecutive pieces of \<open>n\<close>
  elements, the last one possibly shorter; and the sending of a list of pieces one after
  the other through \<open>priv_at_send\<close>, which stops at the first piece that is not sent
  in full.
\<close>

definition hexdigits :: "c_char list" where
  "hexdigits = ascii ''0123456789ABCDEF''"

definition hex_byte :: "c_char \<Rightarrow> c_char list" where
  "hex_byte b = [hexdigits ! (unat b div 16), hexdigits ! (unat b mod 16)]"

definition hex_encode :: "c_char list \<Rightarrow> c_char list" where
  "hex_encode data = concat (map hex_byte data)"

fun chunks :: "nat \<Rightarrow> 'a list \<Rightarrow> 'a list list" where
  "chunks n xs = (if n = 0 \<or> xs = [] then [] else take n xs # chunks n (drop n xs))"

fun send_chunks :: "environment \<Rightarrow> at_freertos \<Rightarrow> c_char list list \<Rightarrow> bool \<times> at_freertos" where
  "send_chunks env priv [] = (True, priv)"
| "send_chunks env priv (c # cs) =
     (case priv_at_send env priv c of
        (False, priv') \<Rightarrow> (False, priv')
      | (True, priv') \<Rightarrow> send_chunks env priv' cs)"

subsection \<open>Auxiliary notions\<close>

text \<open>
  The state of \<^verbatim>\<open>_at_command\<close> when its wait loop begins (the command has been
  written, the waiter flag is set and the semaphore is clear), and what the function
  makes of the state in which the loop ends.
\<close>

definition command_sent :: "environment \<Rightarrow> at_freertos \<Rightarrow> c_char list \<Rightarrow> at_freertos" where
  "command_sent env priv data =
     (let priv1 = (if delay priv \<noteq> 0 then emit (TaskDelay (delay priv)) priv else priv);
          priv2 = emit ParserAwaitResponse priv1;
          priv3 = emit (UartWrite data (uart_write env (trace priv2) data)) priv2;
          priv4 = priv3\<lparr>waiting := True\<rparr>
      in (emit SemPoll priv4)\<lparr>xSem := False\<rparr>)"

definition command_result :: "at_freertos \<Rightarrow> c_char list option \<times> at_freertos" where
  "command_result priv6 =
     (let (result, priv7) =
            (if \<not> is_open priv6 then (None, priv6)
             else if waiting priv6 then
               (None, emit ParserReset (emit ParserShowResidual priv6))
             else (Some (response priv6), priv6))
      in (result, priv7\<lparr>command_scanner := None\<rparr>))"

text \<open>A buffer holds a NUL at an offset below its length.\<close>

definition nul_terminated :: "c_char list \<Rightarrow> bool" where
  "nul_terminated buf = (\<exists>k < length buf. buf ! k = 0)"

subsection \<open>Example channels and environments\<close>

text \<open>
  A channel as \<^verbatim>\<open>at_alloc_freertos\<close> and \<^verbatim>\<open>at_open\<close> leave it (the
  \<^verbatim>\<open>memset\<close> zeroes the structure), with a response array of \<open>n\<close> bytes and a
  time-out of two seconds; the same channel closed; a modem that accepts every write and
  answers every command with \<open>reply\<close> during the first wait; a modem that never
  answers; a modem that never answers while the port is closed during the first wait; a
  UART that accepts one byte less than it is offered; a per-command scanner.
\<close>

definition fresh_channel :: "nat \<Rightarrow> at_freertos" where
  "fresh_channel n = \<lparr>cbs = None, command_scanner = None, timeout = 2, delay = 0,
     response = replicate n 0, xSem = False, running = True, is_open = True, busy = False,
     waiting = False, trace = []\<rparr>"

definition closed_channel :: "nat \<Rightarrow> at_freertos" where
  "closed_channel n = (fresh_channel n)\<lparr>is_open := False\<rparr>"

definition modem_env :: "c_char list \<Rightarrow> environment" where
  "modem_env reply = \<lparr>uart_write = (\<lambda>h d. length d), reader = (\<lambda>k. Delivers reply)\<rparr>"

definition silent_env :: environment where
  "silent_env = \<lparr>uart_write = (\<lambda>h d. length d), reader = (\<lambda>k. Quiet)\<rparr>"

definition closing_env :: environment where
  "closing_env = \<lparr>uart_write = (\<lambda>h d. length d), reader = (\<lambda>k. Closes)\<rparr>"

definition stingy_env :: environment where
  "stingy_env = \<lparr>uart_write = (\<lambda>h d. length d - 1), reader = (\<lambda>k. Quiet)\<rparr>"

definition ok_scanner :: at_line_scanner_t where
  "ok_scanner line = (if line = ascii ''SEND OK'' then 2 else 0)"

section \<open>Line classification\<close>

text \<open>
  C5. For every completed line, \<open>scan_line\<close> asks the per-command scanner first and
  the caller-installed default scanner second, each only when it is installed, and
  returns the first classification that is not \<^verbatim>\<open>Unknown\<close>; it returns
  \<^verbatim>\<open>Unknown\<close> only when every installed scanner returned \<^verbatim>\<open>Unknown\<close>.
\<close>

theorem scan_line_first_decision:
  "scan_line at line = first_decision (installed_scanners at) line \<and>
   (fst (scan_line at line) = AT_RESPONSE_UNKNOWN \<longleftrightarrow>
      list_all (\<lambda>s. snd s line = AT_RESPONSE_UNKNOWN) (installed_scanners at))"
  by (auto simp: scan_line_def installed_scanners_def AT_RESPONSE_UNKNOWN_def Let_def
      split: option.splits)

section \<open>The wait loop\<close>

declare wait_for_response.simps [simp del]

lemma handle_response_length: "length (response (handle_response buf priv)) = length (response priv)"
  by (auto simp: handle_response_def Let_def)

lemma handle_response_frame:
  "trace (handle_response buf priv) = trace priv"
  "command_scanner (handle_response buf priv) = command_scanner priv"
  "is_open (handle_response buf priv) = is_open priv"
  "\<not> waiting (handle_response buf priv)"
  by (simp_all add: handle_response_def Let_def)

lemma handle_response_stored:
  "response (handle_response buf priv) =
     (take (min (length buf) (length (response priv) - 1)) buf @
      drop (min (length buf) (length (response priv) - 1)) (response priv))
     [min (length buf) (length (response priv) - 1) := 0]"
proof -
  have "(if length buf < length (response priv) - 1 then length buf else length (response priv) - 1)
      = min (length buf) (length (response priv) - 1)"
    by (simp add: min_def)
  then show ?thesis
    unfolding handle_response_def Let_def by simp
qed

lemma handle_response_nul:
  assumes "0 < length (response priv)"
  shows "response (handle_response buf priv) ! min (length buf) (length (response priv) - 1) = 0"
proof -
  let ?n = "min (length buf) (length (response priv) - 1)"
  have "?n < length (response priv)"
    using assms by linarith
  then have "?n < length (take ?n buf @ drop ?n (response priv))"
    by simp
  then show ?thesis
    unfolding handle_response_stored by (rule nth_list_update_eq)
qed

lemma wait_stop: "\<not> (t \<noteq> 0 \<and> is_open priv \<and> waiting priv) \<Longrightarrow> wait_for_response env t priv = priv"
  by (subst wait_for_response.simps) auto

lemma wait_taken:
  "t \<noteq> 0 \<Longrightarrow> is_open priv \<Longrightarrow> waiting priv \<Longrightarrow> xSemaphoreTake_1s env priv = (True, priv')
   \<Longrightarrow> wait_for_response env t priv = priv'"
  by (subst wait_for_response.simps) simp

lemma wait_again:
  "t \<noteq> 0 \<Longrightarrow> is_open priv \<Longrightarrow> waiting priv \<Longrightarrow> xSemaphoreTake_1s env priv = (False, priv')
   \<Longrightarrow> wait_for_response env t priv = wait_for_response env (t - 1) priv'"
  by (subst wait_for_response.simps) simp

lemma wait_invariant:
  fixes I :: "at_freertos \<Rightarrow> bool"
  assumes step: "\<And>p. I p \<Longrightarrow> I (snd (xSemaphoreTake_1s env p))"
  shows "I priv \<Longrightarrow> I (wait_for_response env t priv)"
proof (induction "unat t" arbitrary: t priv)
  case 0
  then have "t = 0" by (simp add: unat_eq_0)
  with 0 show ?case by (simp add: wait_stop)
next
  case (Suc n)
  then have "t \<noteq> 0" by auto
  with Suc.hyps(2) have t: "t \<noteq> 0" "unat (t - 1) = n" by (simp_all add: unat_minus_one)
  show ?case
  proof (cases "is_open priv \<and> waiting priv")
    case False
    with Suc.prems show ?thesis by (auto simp: wait_stop)
  next
    case True
    obtain ok priv' where tk: "xSemaphoreTake_1s env priv = (ok, priv')" by force
    with step[OF Suc.prems] have I': "I priv'" by simp
    show ?thesis
    proof (cases ok)
      case True
      with \<open>is_open priv \<and> waiting priv\<close> t tk I' show ?thesis by (simp add: wait_taken)
    next
      case False
      with True t tk have "wait_for_response env t priv = wait_for_response env (t - 1) priv'"
        by (simp add: wait_again)
      with Suc.hyps(1)[of "t - 1" priv'] t I' show ?thesis by simp
    qed
  qed
qed

lemma take_frame:
  "trace (snd (xSemaphoreTake_1s env priv)) = trace priv @ [SemWait]"
  "command_scanner (snd (xSemaphoreTake_1s env priv)) = command_scanner priv"
  "length (response (snd (xSemaphoreTake_1s env priv))) = length (response priv)"
  by (auto simp: xSemaphoreTake_1s_def Let_def emit_def handle_response_frame handle_response_length
      split: reader_event.splits)

lemma handle_response_nul_terminated:
  assumes "0 < length (response priv)"
  shows "nul_terminated (response (handle_response buf priv))"
  unfolding nul_terminated_def
proof (intro exI conjI)
  show "min (length buf) (length (response priv) - 1) < length (response (handle_response buf priv))"
    using assms unfolding handle_response_length by linarith
  show "response (handle_response buf priv) ! min (length buf) (length (response priv) - 1) = 0"
    by (rule handle_response_nul[OF assms])
qed

lemma take_nul:
  assumes "0 < length (response priv)" and "waiting priv \<or> nul_terminated (response priv)"
  shows "waiting (snd (xSemaphoreTake_1s env priv)) \<or>
     nul_terminated (response (snd (xSemaphoreTake_1s env priv)))"
proof (cases "\<not> xSem priv \<and> (\<exists>buf. reader env (elapsed (trace priv)) = Delivers buf)")
  case False
  with assms(2) show ?thesis
    by (auto simp: xSemaphoreTake_1s_def Let_def emit_def split: reader_event.splits)
next
  case True
  then obtain buf where b: "\<not> xSem priv" "reader env (elapsed (trace priv)) = Delivers buf"
    by blast
  have "0 < length (response (emit SemWait priv))"
    using assms(1) by (simp add: emit_def)
  then have "nul_terminated (response (handle_response buf (emit SemWait priv)))"
    by (rule handle_response_nul_terminated)
  with b show ?thesis
    by (simp add: xSemaphoreTake_1s_def Let_def)
qed

lemma wait_frame:
  "command_scanner (wait_for_response env t priv) = command_scanner priv"
  "length (response (wait_for_response env t priv)) = length (response priv)"
  "\<exists>n. trace (wait_for_response env t priv) = trace priv @ replicate n SemWait"
proof -
  show "command_scanner (wait_for_response env t priv) = command_scanner priv"
    by (rule wait_invariant[where I="\<lambda>p. command_scanner p = command_scanner priv"])
       (simp_all add: take_frame)
  show "length (response (wait_for_response env t priv)) = length (response priv)"
    by (rule wait_invariant[where I="\<lambda>p. length (response p) = length (response priv)"])
       (simp_all add: take_frame)
  show "\<exists>n. trace (wait_for_response env t priv) = trace priv @ replicate n SemWait"
  proof (rule wait_invariant[where I="\<lambda>p. \<exists>n. trace p = trace priv @ replicate n SemWait"])
    fix p :: at_freertos assume "\<exists>n. trace p = trace priv @ replicate n SemWait"
    then obtain n where "trace p = trace priv @ replicate n SemWait" ..
    then have "trace (snd (xSemaphoreTake_1s env p)) = trace priv @ replicate (Suc n) SemWait"
      by (simp add: take_frame replicate_append_same)
    then show "\<exists>n. trace (snd (xSemaphoreTake_1s env p)) = trace priv @ replicate n SemWait" ..
  next
    show "\<exists>n. trace priv = trace priv @ replicate n SemWait" by (rule exI[of _ 0]) simp
  qed
qed

lemma wait_quiet:
  "is_open priv \<Longrightarrow> waiting priv \<Longrightarrow> \<not> xSem priv \<Longrightarrow>
   \<forall>k < unat t. reader env (elapsed (trace priv) + k) = Quiet \<Longrightarrow>
   wait_for_response env t priv = priv\<lparr>trace := trace priv @ replicate (unat t) SemWait\<rparr>"
proof (induction "unat t" arbitrary: t priv)
  case 0
  then have "t = 0" by (simp add: unat_eq_0)
  then show ?case by (simp add: wait_stop)
next
  case (Suc n)
  then have "t \<noteq> 0" by auto
  with Suc.hyps(2) have t: "t \<noteq> 0" "unat (t - 1) = n" by (simp_all add: unat_minus_one)
  from Suc.prems(4) Suc.hyps(2) have q0: "reader env (elapsed (trace priv)) = Quiet"
    by (metis add.right_neutral zero_less_Suc)
  with Suc.prems have tk: "xSemaphoreTake_1s env priv = (False, emit SemWait priv)"
    by (simp add: xSemaphoreTake_1s_def Let_def)
  have q: "\<forall>k < unat (t - 1). reader env (elapsed (trace (emit SemWait priv)) + k) = Quiet"
  proof (intro allI impI)
    fix k assume "k < unat (t - 1)"
    with t Suc.hyps(2) have "Suc k < unat t" by simp
    with Suc.prems(4) have "reader env (elapsed (trace priv) + Suc k) = Quiet" by blast
    then show "reader env (elapsed (trace (emit SemWait priv)) + k) = Quiet"
      by (simp add: emit_def elapsed_def)
  qed
  have "wait_for_response env t priv = wait_for_response env (t - 1) (emit SemWait priv)"
    using wait_again[OF t(1) Suc.prems(1,2) tk] .
  also have "\<dots> = (emit SemWait priv)\<lparr>trace := trace (emit SemWait priv) @ replicate (unat (t - 1)) SemWait\<rparr>"
    using Suc.hyps(1)[of "t - 1" "emit SemWait priv"] t Suc.prems q by (simp add: emit_def)
  also have "\<dots> = priv\<lparr>trace := trace priv @ replicate (unat t) SemWait\<rparr>"
    using t Suc.hyps(2)[symmetric] by (simp add: emit_def)
  finally show ?case .
qed

lemma wait_nul:
  assumes "0 < length (response priv)" and "waiting priv \<or> nul_terminated (response priv)"
  shows "waiting (wait_for_response env t priv) \<or> nul_terminated (response (wait_for_response env t priv))"
proof -
  have "0 < length (response (wait_for_response env t priv)) \<and>
    (waiting (wait_for_response env t priv) \<or> nul_terminated (response (wait_for_response env t priv)))"
    by (rule wait_invariant[where I="\<lambda>p. 0 < length (response p) \<and> (waiting p \<or> nul_terminated (response p))"])
       (use assms in \<open>simp_all add: take_frame take_nul\<close>)
  then show ?thesis ..
qed

section \<open>Commands\<close>

lemma at_command_fits:
  "length text < 79 \<Longrightarrow> at_command env priv text = priv_at_command env priv (text @ [0x0D])"
  by (simp add: at_command_def vsnprintf_def AT_COMMAND_LENGTH_def)

lemma at_command_overlong:
  "79 \<le> length text \<Longrightarrow> at_command env priv text = (None, priv)"
  by (simp add: at_command_def vsnprintf_def AT_COMMAND_LENGTH_def)

lemma priv_at_command_closed: "\<not> is_open priv \<Longrightarrow> priv_at_command env priv data = (None, priv)"
  by (simp add: priv_at_command_def)

lemma at_command_closed:
  "\<not> is_open priv \<Longrightarrow> at_command env priv text = (None, priv)"
  by (cases "length text < 79")
     (simp_all add: at_command_fits at_command_overlong priv_at_command_closed)

lemma priv_at_command_unfold0:
  "is_open priv \<Longrightarrow> priv_at_command env priv data =
     command_result (wait_for_response env (timeout (command_sent env priv data))
       (command_sent env priv data))"
  by (simp add: priv_at_command_def command_sent_def command_result_def Let_def)

lemma command_sent_frame:
  "is_open (command_sent env priv data) = is_open priv"
  "waiting (command_sent env priv data)"
  "\<not> xSem (command_sent env priv data)"
  "timeout (command_sent env priv data) = timeout priv"
  "response (command_sent env priv data) = response priv"
  "command_scanner (command_sent env priv data) = command_scanner priv"
  "elapsed (trace (command_sent env priv data)) = elapsed (trace priv)"
  "uart_writes (trace (command_sent env priv data)) = uart_writes (trace priv) @ [data]"
  "parser_calls (trace (command_sent env priv data)) = parser_calls (trace priv) @ [ParserAwaitResponse]"
  by (simp_all add: command_sent_def Let_def emit_def elapsed_def uart_writes_def parser_calls_def)

lemma priv_at_command_unfold:
  "is_open priv \<Longrightarrow> priv_at_command env priv data =
     command_result (wait_for_response env (timeout priv) (command_sent env priv data))"
  by (simp add: priv_at_command_unfold0 command_sent_frame)

lemma priv_at_command_timeout:
  assumes "is_open priv"
    and "\<forall>k < unat (timeout priv). reader env (elapsed (trace priv) + k) = Quiet"
  shows "priv_at_command env priv data =
     (None, (command_sent env priv data)\<lparr>command_scanner := None,
        trace := trace (command_sent env priv data) @ replicate (unat (timeout priv)) SemWait @
                 [ParserShowResidual, ParserReset]\<rparr>)"
proof -
  let ?p = "command_sent env priv data"
  have "wait_for_response env (timeout ?p) ?p =
      ?p\<lparr>trace := trace ?p @ replicate (unat (timeout ?p)) SemWait\<rparr>"
    by (rule wait_quiet) (use assms in \<open>simp_all add: command_sent_frame\<close>)
  then have w: "wait_for_response env (timeout priv) ?p =
      ?p\<lparr>trace := trace ?p @ replicate (unat (timeout priv)) SemWait\<rparr>"
    by (simp add: command_sent_frame)
  show ?thesis
    unfolding priv_at_command_unfold[OF assms(1)] w
    using assms(1) by (simp add: command_result_def command_sent_frame emit_def)
qed

lemma parser_calls_append: "parser_calls (xs @ ys) = parser_calls xs @ parser_calls ys"
  by (simp add: parser_calls_def)

lemma parser_calls_waits: "parser_calls (replicate n SemWait) = []"
  by (simp add: parser_calls_def)

lemma uart_writes_append: "uart_writes (xs @ ys) = uart_writes xs @ uart_writes ys"
  by (simp add: uart_writes_def)

lemma uart_writes_waits: "uart_writes (replicate n SemWait) = []"
  by (induction n) (simp_all add: uart_writes_def)

lemma command_result_frame:
  "uart_writes (trace (snd (command_result p))) = uart_writes (trace p)"
  "command_scanner (snd (command_result p)) = None"
  "length (response (snd (command_result p))) = length (response p)"
  by (simp_all add: command_result_def Let_def emit_def uart_writes_def)

lemma command_result_Some:
  "command_result p = (Some r, p') \<Longrightarrow> r = response p \<and> \<not> waiting p"
  by (auto simp: command_result_def Let_def split: if_splits)

lemma priv_at_command_writes:
  assumes "is_open priv"
  shows "uart_writes (trace (snd (priv_at_command env priv data))) = uart_writes (trace priv) @ [data]"
proof -
  obtain n where "trace (wait_for_response env (timeout priv) (command_sent env priv data)) =
      trace (command_sent env priv data) @ replicate n SemWait"
    using wait_frame(3) by blast
  then show ?thesis
    by (simp add: priv_at_command_unfold[OF assms] command_result_frame uart_writes_append
        uart_writes_waits command_sent_frame)
qed

lemma priv_at_command_Some:
  assumes "0 < length (response priv)" and "priv_at_command env priv data = (Some r, priv')"
  shows "length r = length (response priv) \<and> nul_terminated r"
proof -
  have op: "is_open priv"
    using assms(2) by (cases "is_open priv") (simp_all add: priv_at_command_closed)
  let ?p6 = "wait_for_response env (timeout priv) (command_sent env priv data)"
  from assms(2) have r: "r = response ?p6" "\<not> waiting ?p6"
    using command_result_Some[of ?p6 r priv'] by (simp_all add: priv_at_command_unfold[OF op])
  have "waiting ?p6 \<or> nul_terminated (response ?p6)"
    by (rule wait_nul) (use assms(1) in \<open>simp_all add: command_sent_frame\<close>)
  with r show ?thesis
    by (simp add: wait_frame command_sent_frame)
qed

text \<open>
  C4. A call of \<open>at_command\<close> or \<open>at_command_raw\<close> made while the port is not open
  returns null and leaves the channel as it was: the trace is unchanged, so no byte is
  written to the UART and no function of the parser is called.
\<close>

theorem closed_port_rejected:
  assumes "\<not> is_open priv"
  shows "at_command env priv text = (None, priv) \<and> at_command_raw env priv data = (None, priv)"
  using assms by (simp add: at_command_closed at_command_raw_def priv_at_command_closed)

theorem closed_port_rejected_witness:
  "\<not> is_open (closed_channel 8) \<and>
   at_command silent_env (closed_channel 8) (ascii ''AT+CSQ'') = (None, closed_channel 8) \<and>
   at_command_raw silent_env (closed_channel 8) [0x1A] = (None, closed_channel 8)"
  using closed_port_rejected[of "closed_channel 8" silent_env "ascii ''AT+CSQ''" "[0x1A]"]
  by (simp add: closed_channel_def fresh_channel_def)

text \<open>
  C3, amended. A call of \<open>at_command_raw\<close>, or of \<open>at_command\<close> with a line that
  fits (a text of less than 79 bytes), made with the port open and during which the port
  stays open and no response arrives within the configured time-out (every one-second
  wait of the time-out budget is quiet) returns null, clears the per-command scanner, and
  calls the parser's reset after having armed it.
\<close>

theorem command_timeout:
  assumes "is_open priv"
    and "\<forall>k < unat (timeout priv). reader env (elapsed (trace priv) + k) = Quiet"
  shows "fst (at_command_raw env priv data) = None \<and>
         command_scanner (snd (at_command_raw env priv data)) = None \<and>
         parser_calls (trace (snd (at_command_raw env priv data))) =
           parser_calls (trace priv) @ [ParserAwaitResponse, ParserShowResidual, ParserReset] \<and>
         (length text < 79 \<longrightarrow>
           fst (at_command env priv text) = None \<and>
           command_scanner (snd (at_command env priv text)) = None \<and>
           parser_calls (trace (snd (at_command env priv text))) =
             parser_calls (trace priv) @ [ParserAwaitResponse, ParserShowResidual, ParserReset])"
  by (simp add: at_command_raw_def at_command_fits priv_at_command_timeout[OF assms]
      parser_calls_append parser_calls_waits command_sent_frame)
     (simp add: parser_calls_def)

theorem command_timeout_witness:
  "is_open (fresh_channel 8) \<and>
   fst (at_command_raw silent_env (fresh_channel 8) [0x1A]) = None \<and>
   fst (at_command silent_env (fresh_channel 8) (ascii ''AT+CSQ'')) = None \<and>
   parser_calls (trace (snd (at_command silent_env (fresh_channel 8) (ascii ''AT+CSQ'')))) =
     [ParserAwaitResponse, ParserShowResidual, ParserReset]"
  using command_timeout[of "fresh_channel 8" silent_env "[0x1A]" "ascii ''AT+CSQ''"]
  by (simp add: fresh_channel_def silent_env_def ascii_def parser_calls_def)

text \<open>
  C3 as stated fails. When the port is closed during the wait, no response arrives and
  the call returns null, but the parser is not reset: the only parser call is the arming.
  When the line of an \<open>at_command\<close> is too long, the call returns null with the port
  open and no response, and neither resets the parser nor clears the per-command scanner.
\<close>

theorem command_null_without_reset_counterexample:
  "is_open (fresh_channel 8) \<and>
   fst (at_command_raw closing_env (fresh_channel 8) [0x1A]) = None \<and>
   parser_calls (trace (snd (at_command_raw closing_env (fresh_channel 8) [0x1A]))) =
     [ParserAwaitResponse] \<and>
   is_open (at_set_command_scanner (fresh_channel 8) (Some ok_scanner)) \<and>
   at_command silent_env (at_set_command_scanner (fresh_channel 8) (Some ok_scanner))
       (replicate 79 0x41) =
     (None, at_set_command_scanner (fresh_channel 8) (Some ok_scanner)) \<and>
   command_scanner (at_set_command_scanner (fresh_channel 8) (Some ok_scanner)) = Some ok_scanner \<and>
   parser_calls (trace (at_set_command_scanner (fresh_channel 8) (Some ok_scanner))) = []"
proof -
  have a: "fst (at_command_raw closing_env (fresh_channel 8) [0x1A]) = None \<and>
      parser_calls (trace (snd (at_command_raw closing_env (fresh_channel 8) [0x1A]))) =
        [ParserAwaitResponse]"
    by code_simp
  have b: "at_command silent_env (at_set_command_scanner (fresh_channel 8) (Some ok_scanner))
       (replicate 79 0x41) =
     (None, at_set_command_scanner (fresh_channel 8) (Some ok_scanner))"
    by (simp add: at_command_overlong)
  have c: "is_open (fresh_channel 8)"
    "is_open (at_set_command_scanner (fresh_channel 8) (Some ok_scanner))"
    "command_scanner (at_set_command_scanner (fresh_channel 8) (Some ok_scanner)) = Some ok_scanner"
    "parser_calls (trace (at_set_command_scanner (fresh_channel 8) (Some ok_scanner))) = []"
    by (simp_all add: at_set_command_scanner_def fresh_channel_def parser_calls_def)
  from a b c show ?thesis by simp
qed

text \<open>
  C7. Whenever \<open>at_command\<close> or \<open>at_command_raw\<close> returns a response, the array
  returned has its full capacity and holds a NUL at an offset strictly less than that
  capacity.
\<close>

theorem response_nul_terminated:
  assumes "0 < length (response priv)"
    and "at_command env priv text = (Some r, priv') \<or> at_command_raw env priv data = (Some r, priv')"
  shows "length r = length (response priv) \<and> (\<exists>k < length r. r ! k = 0)"
proof -
  from assms(2) obtain d where "priv_at_command env priv d = (Some r, priv')"
  proof
    assume a: "at_command env priv text = (Some r, priv')"
    then have "length text < 79"
      by (cases "length text < 79") (simp_all add: at_command_overlong)
    with a have "priv_at_command env priv (text @ [0x0D]) = (Some r, priv')"
      by (simp add: at_command_fits)
    then show ?thesis using that by blast
  next
    assume "at_command_raw env priv data = (Some r, priv')"
    then show ?thesis using that by (simp add: at_command_raw_def)
  qed
  from priv_at_command_Some[OF assms(1) this] show ?thesis
    by (auto simp: nul_terminated_def)
qed

theorem response_nul_terminated_witness:
  "0 < length (response (fresh_channel 4)) \<and>
   fst (at_command (modem_env (ascii ''+CSQ: 14,0'')) (fresh_channel 4) (ascii ''AT+CSQ''))
     = Some (ascii ''+CS'' @ [0]) \<and>
   length (ascii ''+CS'' @ [0]) = length (response (fresh_channel 4)) \<and>
   (\<exists>k < length (ascii ''+CS'' @ [0]). (ascii ''+CS'' @ [0]) ! k = 0)"
proof -
  let ?run = "at_command (modem_env (ascii ''+CSQ: 14,0'')) (fresh_channel 4) (ascii ''AT+CSQ'')"
  have f: "fst ?run = Some (ascii ''+CS'' @ [0])"
    by code_simp
  then have e: "?run = (Some (ascii ''+CS'' @ [0]), snd ?run)"
    by (metis prod.collapse)
  have l: "0 < length (response (fresh_channel 4))" by (simp add: fresh_channel_def)
  from response_nul_terminated[OF l disjI1, OF e] f l show ?thesis
    by blast
qed

lemma handle_response_same_buffer:
  "response q = response priv \<Longrightarrow> response (handle_response buf q) = response (handle_response buf priv)"
  by (simp add: handle_response_stored)

lemma priv_at_command_delivered:
  assumes "is_open priv" and "timeout priv \<noteq> 0"
    and "reader env (elapsed (trace priv)) = Delivers buf"
  shows "fst (priv_at_command env priv data) = Some (response (handle_response buf priv))"
proof -
  define p5 where "p5 = command_sent env priv data"
  define p6 where "p6 = (handle_response buf (emit SemWait p5))\<lparr>xSem := False\<rparr>"
  have p5: "is_open p5" "waiting p5" "\<not> xSem p5" "response p5 = response priv"
    "elapsed (trace p5) = elapsed (trace priv)"
    using assms(1) by (simp_all add: p5_def command_sent_frame)
  have tk: "xSemaphoreTake_1s env p5 = (True, p6)"
    using assms(3) p5 by (simp add: xSemaphoreTake_1s_def Let_def p6_def)
  have w: "wait_for_response env (timeout priv) p5 = p6"
    by (rule wait_taken[OF assms(2) p5(1) p5(2) tk])
  have "response (emit SemWait p5) = response priv"
    using p5 by (simp add: emit_def)
  then have "response p6 = response (handle_response buf priv)"
    unfolding p6_def by (simp add: handle_response_stored)
  moreover have "is_open p6" "\<not> waiting p6"
    using p5 by (simp_all add: p6_def handle_response_frame emit_def)
  ultimately have "command_result p6 = (Some (response (handle_response buf priv)), p6\<lparr>command_scanner := None\<rparr>)"
    by (simp add: command_result_def)
  then show ?thesis
    by (simp add: priv_at_command_unfold[OF assms(1)] w[unfolded p5_def])
qed

text \<open>
  C8. A response of \<open>length buf\<close> bytes delivered to \<open>handle_response\<close> leaves in
  the response array exactly its first \<open>min (length buf) (AT_BUF_SIZE - 1)\<close> bytes,
  followed by a NUL; the bytes of the array behind the NUL are left as they were and the
  rest of the response is dropped. The delivery is signalled like any other (the waiter
  flag is cleared and the semaphore given), and the command during whose first wait it
  happens returns the truncated array, not null.
\<close>

theorem handle_response_truncates:
  assumes "0 < length (response priv)"
  shows "length (response (handle_response buf priv)) = length (response priv) \<and>
         take (min (length buf) (length (response priv) - 1)) (response (handle_response buf priv)) =
           take (min (length buf) (length (response priv) - 1)) buf \<and>
         response (handle_response buf priv) ! min (length buf) (length (response priv) - 1) = 0 \<and>
         drop (Suc (min (length buf) (length (response priv) - 1))) (response (handle_response buf priv)) =
           drop (Suc (min (length buf) (length (response priv) - 1))) (response priv) \<and>
         \<not> waiting (handle_response buf priv) \<and> xSem (handle_response buf priv) \<and>
         (is_open priv \<and> timeout priv \<noteq> 0 \<and> reader env (elapsed (trace priv)) = Delivers buf \<longrightarrow>
            fst (at_command_raw env priv data) = Some (response (handle_response buf priv)))"
proof -
  let ?n = "min (length buf) (length (response priv) - 1)"
  let ?r = "response (handle_response buf priv)"
  have n: "?n < length (response priv)" using assms by linarith
  have a: "length ?r = length (response priv)" by (rule handle_response_length)
  have b: "take ?n ?r = take ?n buf"
    unfolding handle_response_stored by simp
  have c: "?r ! ?n = 0" by (rule handle_response_nul[OF assms])
  have d: "drop (Suc ?n) ?r = drop (Suc ?n) (response priv)"
    unfolding handle_response_stored using n by (simp add: drop_update_cancel)
  have e: "\<not> waiting (handle_response buf priv)" "xSem (handle_response buf priv)"
    by (simp_all add: handle_response_def Let_def)
  have f: "is_open priv \<and> timeout priv \<noteq> 0 \<and> reader env (elapsed (trace priv)) = Delivers buf \<longrightarrow>
            fst (at_command_raw env priv data) = Some (response (handle_response buf priv))"
    by (simp add: at_command_raw_def priv_at_command_delivered)
  show ?thesis by (intro conjI a b c d e f)
qed

theorem handle_response_truncates_witness:
  "0 < length (response (fresh_channel 4)) \<and>
   response (handle_response (ascii ''+CSQ: 14,0'') (fresh_channel 4)) = ascii ''+CS'' @ [0] \<and>
   is_open (fresh_channel 4) \<and> timeout (fresh_channel 4) \<noteq> 0 \<and>
   reader (modem_env (ascii ''+CSQ: 14,0'')) (elapsed (trace (fresh_channel 4))) = Delivers (ascii ''+CSQ: 14,0'') \<and>
   fst (at_command_raw (modem_env (ascii ''+CSQ: 14,0'')) (fresh_channel 4) (ascii ''AT+CSQ'' @ [0x0D]))
     = Some (ascii ''+CS'' @ [0])"
proof -
  have l: "0 < length (response (fresh_channel 4))" by (simp add: fresh_channel_def)
  have h: "is_open (fresh_channel 4) \<and> timeout (fresh_channel 4) \<noteq> 0 \<and>
     reader (modem_env (ascii ''+CSQ: 14,0'')) (elapsed (trace (fresh_channel 4))) = Delivers (ascii ''+CSQ: 14,0'')"
    by (simp add: fresh_channel_def modem_env_def)
  have r: "response (handle_response (ascii ''+CSQ: 14,0'') (fresh_channel 4)) = ascii ''+CS'' @ [0]"
    by (simp add: handle_response_stored fresh_channel_def ascii_def)
  from handle_response_truncates[OF l, of "ascii ''+CSQ: 14,0''" "modem_env (ascii ''+CSQ: 14,0'')"
      "ascii ''AT+CSQ'' @ [0x0D]"] l h r
  show ?thesis by simp
qed

text \<open>
  C9. A call of \<open>at_command\<close> or \<open>at_command_raw\<close> that is rejected because the
  port is closed leaves the per-command scanner installed before the call in place. The
  scanner is cleared only by calls that get past the transmission: a call made with the
  port open that writes its data to the UART clears it, and an \<open>at_command\<close> whose
  line is too long, which writes nothing, leaves it in place as well.
\<close>

theorem closed_port_keeps_scanner:
  "(\<not> is_open priv \<longrightarrow>
      command_scanner (snd (at_command env (at_set_command_scanner priv scanner) text)) = scanner \<and>
      command_scanner (snd (at_command_raw env (at_set_command_scanner priv scanner) data)) = scanner) \<and>
   (is_open priv \<longrightarrow>
      command_scanner (snd (at_command_raw env (at_set_command_scanner priv scanner) data)) = None \<and>
      uart_writes (trace (snd (at_command_raw env (at_set_command_scanner priv scanner) data))) =
        uart_writes (trace priv) @ [data]) \<and>
   (is_open priv \<and> length text < 79 \<longrightarrow>
      command_scanner (snd (at_command env (at_set_command_scanner priv scanner) text)) = None \<and>
      uart_writes (trace (snd (at_command env (at_set_command_scanner priv scanner) text))) =
        uart_writes (trace priv) @ [text @ [0x0D]]) \<and>
   (79 \<le> length text \<longrightarrow>
      command_scanner (snd (at_command env (at_set_command_scanner priv scanner) text)) = scanner \<and>
      uart_writes (trace (snd (at_command env (at_set_command_scanner priv scanner) text))) =
        uart_writes (trace priv))"
proof -
  let ?p = "at_set_command_scanner priv scanner"
  have p: "is_open ?p = is_open priv" "command_scanner ?p = scanner" "trace ?p = trace priv"
    by (simp_all add: at_set_command_scanner_def)
  have a: "\<not> is_open priv \<longrightarrow>
      command_scanner (snd (at_command env ?p text)) = scanner \<and>
      command_scanner (snd (at_command_raw env ?p data)) = scanner"
    using p by (simp add: at_command_closed at_command_raw_def priv_at_command_closed)
  have sc: "is_open priv \<Longrightarrow> command_scanner (snd (priv_at_command env ?p d)) = None" for d
    using p by (simp add: priv_at_command_unfold command_result_frame)
  have wr: "is_open priv \<Longrightarrow>
      uart_writes (trace (snd (priv_at_command env ?p d))) = uart_writes (trace priv) @ [d]" for d
    using p priv_at_command_writes[of "?p" env d] by simp
  have b: "is_open priv \<longrightarrow>
      command_scanner (snd (at_command_raw env ?p data)) = None \<and>
      uart_writes (trace (snd (at_command_raw env ?p data))) = uart_writes (trace priv) @ [data]"
    using sc wr by (simp add: at_command_raw_def)
  have c: "is_open priv \<and> length text < 79 \<longrightarrow>
      command_scanner (snd (at_command env ?p text)) = None \<and>
      uart_writes (trace (snd (at_command env ?p text))) = uart_writes (trace priv) @ [text @ [0x0D]]"
    using sc wr by (simp add: at_command_fits)
  have d: "79 \<le> length text \<longrightarrow>
      command_scanner (snd (at_command env ?p text)) = scanner \<and>
      uart_writes (trace (snd (at_command env ?p text))) = uart_writes (trace priv)"
    using p by (simp add: at_command_overlong)
  show ?thesis by (intro conjI a b c d)
qed

theorem closed_port_keeps_scanner_witness:
  "\<not> is_open (closed_channel 8) \<and>
   command_scanner (snd (at_command silent_env
     (at_set_command_scanner (closed_channel 8) (Some ok_scanner)) (ascii ''AT+CIPSEND''))) = Some ok_scanner \<and>
   command_scanner (snd (at_command_raw silent_env
     (at_set_command_scanner (closed_channel 8) (Some ok_scanner)) [0x1A])) = Some ok_scanner \<and>
   is_open (fresh_channel 8) \<and> length (ascii ''AT+CIPSEND'') < 79 \<and>
   command_scanner (snd (at_command_raw silent_env
     (at_set_command_scanner (fresh_channel 8) (Some ok_scanner)) [0x1A])) = None \<and>
   uart_writes (trace (snd (at_command_raw silent_env
     (at_set_command_scanner (fresh_channel 8) (Some ok_scanner)) [0x1A]))) = [[0x1A]] \<and>
   command_scanner (snd (at_command silent_env
     (at_set_command_scanner (fresh_channel 8) (Some ok_scanner)) (ascii ''AT+CIPSEND''))) = None \<and>
   79 \<le> length (replicate 79 (0x41::c_char)) \<and>
   command_scanner (snd (at_command silent_env
     (at_set_command_scanner (fresh_channel 8) (Some ok_scanner)) (replicate 79 0x41))) = Some ok_scanner"
proof -
  have c: "\<not> is_open (closed_channel 8)" by (simp add: closed_channel_def)
  have f: "is_open (fresh_channel 8)" "uart_writes (trace (fresh_channel 8)) = []"
    by (simp_all add: fresh_channel_def uart_writes_def)
  have l: "length (ascii ''AT+CIPSEND'') < 79" "79 \<le> length (replicate 79 (0x41::c_char))"
    by (simp_all add: ascii_def)
  from closed_port_keeps_scanner[of "closed_channel 8" silent_env "Some ok_scanner" "ascii ''AT+CIPSEND''" "[0x1A]"]
    closed_port_keeps_scanner[of "fresh_channel 8" silent_env "Some ok_scanner" "ascii ''AT+CIPSEND''" "[0x1A]"]
    closed_port_keeps_scanner[of "fresh_channel 8" silent_env "Some ok_scanner" "replicate 79 0x41" "[0x1A]"]
    c f l
  show ?thesis by simp
qed

text \<open>
  C2 as stated fails: a format expansion of 79 bytes makes a line of exactly 80 bytes
  with the carriage return, and \<open>at_command\<close> returns null without sending it. A
  short line is not transmitted either when the port is closed.
\<close>

theorem at_command_80_bytes_counterexample:
  "is_open (fresh_channel 8) \<and>
   length (replicate 79 (0x41::c_char) @ [0x0D]) = 80 \<and>
   at_command silent_env (fresh_channel 8) (replicate 79 0x41) = (None, fresh_channel 8) \<and>
   length (ascii ''AT+CSQ'' @ [0x0D]) = 7 \<and>
   at_command silent_env (closed_channel 8) (ascii ''AT+CSQ'') = (None, closed_channel 8)"
  by (simp add: at_command_overlong at_command_closed fresh_channel_def closed_channel_def ascii_def)

text \<open>
  C2, amended. With the port open, \<open>at_command\<close> writes the formatted text followed
  by a carriage return, in one UART write, when the resulting line is at most 79 bytes
  including the carriage return. When the line would be longer than 79 bytes it returns
  null and leaves the channel untouched, so nothing is transmitted.
\<close>

theorem at_command_line_bound:
  "(length (text @ [0x0D]) \<le> 79 \<and> is_open priv \<longrightarrow>
      uart_writes (trace (snd (at_command env priv text))) =
        uart_writes (trace priv) @ [text @ [0x0D]]) \<and>
   (79 < length (text @ [0x0D]) \<longrightarrow> at_command env priv text = (None, priv))"
  by (simp add: at_command_fits at_command_overlong priv_at_command_writes)

theorem at_command_line_bound_witness:
  "length (ascii ''AT+CSQ'' @ [0x0D]) \<le> 79 \<and> is_open (fresh_channel 8) \<and>
   uart_writes (trace (snd (at_command silent_env (fresh_channel 8) (ascii ''AT+CSQ'')))) =
     [ascii ''AT+CSQ'' @ [0x0D]] \<and>
   79 < length (replicate 79 (0x41::c_char) @ [0x0D]) \<and>
   at_command silent_env (fresh_channel 8) (replicate 79 0x41) = (None, fresh_channel 8)"
proof -
  have f: "is_open (fresh_channel 8)" "uart_writes (trace (fresh_channel 8)) = []"
    by (simp_all add: fresh_channel_def uart_writes_def)
  have l: "length (ascii ''AT+CSQ'' @ [0x0D]) \<le> 79" by (simp add: ascii_def)
  from at_command_line_bound[of "ascii ''AT+CSQ''" "fresh_channel 8" silent_env]
    at_command_line_bound[of "replicate 79 0x41" "fresh_channel 8" silent_env] f l
  show ?thesis by simp
qed

section \<open>Sending hexadecimal data\<close>

declare chunks.simps [simp del]
declare at_send_hex_loop.simps [simp del]

lemma fifteen: "(15::int) = mask 4"
  by (simp add: mask_eq_exp_minus_1)

lemma nibbles_unsigned:
  "sint (b::c_char) AND 0x0F = uint b AND 0x0F"
  "drop_bit 4 (sint b) AND 0x0F = drop_bit 4 (uint b) AND 0x0F"
  unfolding fifteen
  by (rule bit_eqI, auto simp add: bit_and_iff bit_mask_iff bit_sint_iff bit_uint_iff bit_drop_bit_eq)+

lemma low_nibble: "uint (b::c_char) AND 0x0F = int (unat b mod 16)"
  by (simp only: fifteen flip: take_bit_eq_mask) (simp add: take_bit_eq_mod zmod_int)

lemma high_nibble: "drop_bit 4 (uint (b::c_char)) AND 0x0F = int (unat b div 16)"
proof -
  have "unat b < 2 ^ LENGTH(8)" by (rule unsigned_less)
  then have "unat b div 16 < 16" by simp
  then have m: "(unat b div 16) mod 16 = unat b div 16" by simp
  have "drop_bit 4 (uint b) = int (unat b div 16)"
    by (simp add: drop_bit_eq_div zdiv_int)
  then have "drop_bit 4 (uint b) AND 0x0F = int ((unat b div 16) mod 16)"
    by (simp only: fifteen flip: take_bit_eq_mask) (simp add: take_bit_eq_mod zmod_int)
  with m show ?thesis by simp
qed

lemma hex_char_all: "\<forall>n\<in>{0..<16::nat}. hex_char (int n) = hexdigits ! n"
  by code_simp

lemma hex_char_digit: "n < 16 \<Longrightarrow> hex_char (int n) = hexdigits ! n"
  using hex_char_all by simp

lemma byte_to_hex_eq: "byte_to_hex b = hex_byte b"
proof -
  have "unat b < 2 ^ LENGTH(8)" by (rule unsigned_less)
  then have "unat b div 16 < 16" "unat b mod 16 < 16" by simp_all
  then show ?thesis
    by (simp add: byte_to_hex_def hex_byte_def Let_def nibbles_unsigned low_nibble high_nibble
        hex_char_digit)
qed

lemma hex_line:
  "oset + len \<le> length data \<Longrightarrow>
   concat (map (\<lambda>i. byte_to_hex (data ! (oset + i))) [0..<len]) = hex_encode (take len (drop oset data))"
proof -
  assume a: "oset + len \<le> length data"
  have "take len (drop oset data) = map (\<lambda>i. data ! (oset + i)) [0..<len]"
    using a by (auto intro!: nth_equalityI)
  then show ?thesis
    by (simp add: hex_encode_def byte_to_hex_eq comp_def)
qed

lemma chunks_Nil: "chunks n [] = []"
  by (simp add: chunks.simps)

lemma at_send_hex_loop_chunks:
  "at_send_hex_loop env priv data oset =
     send_chunks env priv (map hex_encode (chunks 40 (drop oset data)))"
proof (induction env priv data oset rule: at_send_hex_loop.induct)
  case (1 env priv data oset)
  show ?case
  proof (cases "oset < length data")
    case False
    then show ?thesis
      by (simp add: at_send_hex_loop.simps[of env priv data oset] chunks_Nil)
  next
    case True
    define len where "len = (if length data - oset > 40 then 40 else length data - oset)"
    have len: "oset + len \<le> length data" "0 < len" using True by (auto simp: len_def)
    have tk: "take 40 (drop oset data) = take len (drop oset data)"
      by (auto simp: len_def)
    have dr: "drop (40 + oset) data = drop (oset + len) data"
    proof (cases "length data - oset > 40")
      case True
      then show ?thesis by (simp add: len_def add.commute)
    next
      case False
      then show ?thesis by (simp add: len_def)
    qed
    have ch: "chunks 40 (drop oset data) = take len (drop oset data) # chunks 40 (drop (oset + len) data)"
      using True by (subst chunks.simps) (simp add: tk dr)
    obtain ok p' where s: "priv_at_send env priv (hex_encode (take len (drop oset data))) = (ok, p')"
      by force
    have line: "concat (map (\<lambda>i. byte_to_hex (data ! (oset + i))) [0..<len]) =
        hex_encode (take len (drop oset data))"
      by (rule hex_line[OF len(1)])
    show ?thesis
    proof (cases ok)
      case False
      with s True line have "at_send_hex_loop env priv data oset = (False, p')"
        by (subst at_send_hex_loop.simps) (simp add: Let_def AT_COMMAND_LENGTH_def len_def[symmetric])
      with s False show ?thesis by (simp add: ch)
    next
      case ok: True
      with s True line have "at_send_hex_loop env priv data oset = at_send_hex_loop env p' data (oset + len)"
        by (subst at_send_hex_loop.simps) (simp add: Let_def AT_COMMAND_LENGTH_def len_def[symmetric])
      moreover have "at_send_hex_loop env p' data (oset + len) =
          send_chunks env p' (map hex_encode (chunks 40 (drop (oset + len) data)))"
      proof (rule "1.IH"[of 40 len _ ok p'])
        show "oset < length data" by (rule True)
        show "40 = AT_COMMAND_LENGTH div 2" by (simp add: AT_COMMAND_LENGTH_def)
        show "len = (if 40 < length data - oset then 40 else length data - oset)" by (simp add: len_def)
        show "hex_encode (take len (drop oset data)) =
            concat (map (\<lambda>i. byte_to_hex (data ! (oset + i))) [0..<len])" by (simp add: line)
        show "(ok, p') = priv_at_send env priv (hex_encode (take len (drop oset data)))" by (simp add: s)
        show "ok = True" by (simp add: ok)
      qed
      ultimately show ?thesis using s ok by (simp add: ch)
    qed
  qed
qed

lemma at_send_hex_chunks:
  "at_send_hex env priv data = send_chunks env priv (map hex_encode (chunks 40 data))"
  by (simp add: at_send_hex_def at_send_hex_loop_chunks)

lemma send_chunks_trace:
  "fst (send_chunks env priv cs) \<longleftrightarrow>
   trace (snd (send_chunks env priv cs)) = trace priv @ map (\<lambda>c. UartWrite c (length c)) cs"
proof (induction cs arbitrary: priv)
  case Nil
  show ?case by simp
next
  case (Cons c cs)
  show ?case
  proof (cases "is_open priv")
    case False
    then show ?thesis by (simp add: priv_at_send_def)
  next
    case True
    show ?thesis
    proof (cases "uart_write env (trace priv) c = length c")
      case False
      with True show ?thesis
        by (simp add: priv_at_send_def Let_def emit_def)
    next
      case acc: True
      with True Cons.IH[of "emit (UartWrite c (length c)) priv"] show ?thesis
        by (simp add: priv_at_send_def Let_def emit_def)
    qed
  qed
qed

lemma chunks_concat: "concat (chunks (Suc n) xs) = xs"
proof (induction xs rule: length_induct)
  case (1 xs)
  show ?case
  proof (cases "xs = []")
    case True
    then show ?thesis by (simp add: chunks_Nil)
  next
    case False
    then have "length (drop (Suc n) xs) < length xs" by simp
    with 1 have "concat (chunks (Suc n) (drop (Suc n) xs)) = drop (Suc n) xs" by blast
    with False show ?thesis by (subst chunks.simps) simp
  qed
qed

lemma chunks_sizes: "list_all (\<lambda>c. 0 < length c \<and> length c \<le> n) (chunks n xs)"
proof (induction xs rule: length_induct)
  case (1 xs)
  show ?case
  proof (cases "n = 0 \<or> xs = []")
    case True
    then show ?thesis by (subst chunks.simps) simp
  next
    case False
    then have "length (drop n xs) < length xs" by simp
    with 1 have "list_all (\<lambda>c. 0 < length c \<and> length c \<le> n) (chunks n (drop n xs))" by blast
    with False show ?thesis by (subst chunks.simps) simp
  qed
qed

lemma hex_encode_append: "hex_encode (xs @ ys) = hex_encode xs @ hex_encode ys"
  by (simp add: hex_encode_def)

lemma hex_encode_concat: "concat (map hex_encode xss) = hex_encode (concat xss)"
  by (induction xss) (simp_all add: hex_encode_append, simp add: hex_encode_def)

lemma hex_encode_length: "length (hex_encode xs) = 2 * length xs"
  by (induction xs) (simp_all add: hex_encode_def hex_byte_def)

lemma hex_byte_digits: "set (hex_byte b) \<subseteq> set hexdigits"
proof -
  have "unat b < 2 ^ LENGTH(8)" by (rule unsigned_less)
  then have "unat b div 16 < length hexdigits" "unat b mod 16 < length hexdigits"
    by (simp_all add: hexdigits_def ascii_def)
  then show ?thesis by (simp add: hex_byte_def)
qed

lemma hex_encode_digits: "set (hex_encode data) \<subseteq> set hexdigits"
  using hex_byte_digits by (auto simp: hex_encode_def)

text \<open>
  C6, amended. \<open>at_send_hex\<close> cuts the data into chunks of at most 40 bytes and
  sends, chunk after chunk, one UART write holding the hexadecimal encoding of the chunk
  (two characters for each byte, \<^verbatim>\<open>0\<close>--\<^verbatim>\<open>9\<close> and upper-case
  \<^verbatim>\<open>A\<close>--\<^verbatim>\<open>F\<close> only, the more significant nibble first; at most 80
  characters), stopping at the first chunk that is not sent in full: the port is closed,
  or the UART accepts fewer bytes than offered. The chunks behind it are not written. It
  returns true iff the calls it has added to the trace are the writes of all the chunks,
  each accepted in full. The encodings of the chunks, put together, are the encoding of the
  data.
\<close>

theorem at_send_hex_writes:
  "at_send_hex env priv data = send_chunks env priv (map hex_encode (chunks 40 data)) \<and>
   (fst (at_send_hex env priv data) \<longleftrightarrow>
      trace (snd (at_send_hex env priv data)) =
        trace priv @ map (\<lambda>c. UartWrite c (length c)) (map hex_encode (chunks 40 data))) \<and>
   concat (map hex_encode (chunks 40 data)) = hex_encode data \<and>
   list_all (\<lambda>c. 0 < length c \<and> length c \<le> 40 \<and> length (hex_encode c) \<le> 80) (chunks 40 data) \<and>
   hex_encode data = concat (map byte_to_hex data) \<and>
   byte_to_hex b = [hexdigits ! (unat b div 16), hexdigits ! (unat b mod 16)] \<and>
   set (hex_encode data) \<subseteq> set (ascii ''0123456789ABCDEF'')"
proof -
  have a: "at_send_hex env priv data = send_chunks env priv (map hex_encode (chunks 40 data))"
    by (rule at_send_hex_chunks)
  have b: "fst (at_send_hex env priv data) \<longleftrightarrow>
      trace (snd (at_send_hex env priv data)) =
        trace priv @ map (\<lambda>c. UartWrite c (length c)) (map hex_encode (chunks 40 data))"
    unfolding a by (rule send_chunks_trace)
  have "concat (chunks 40 data) = data"
    using chunks_concat[of 39 data] by simp
  then have c: "concat (map hex_encode (chunks 40 data)) = hex_encode data"
    by (simp add: hex_encode_concat)
  have d: "list_all (\<lambda>c. 0 < length c \<and> length c \<le> 40 \<and> length (hex_encode c) \<le> 80) (chunks 40 data)"
    using chunks_sizes[of 40 data] by (simp add: hex_encode_length list_all_iff)
  have e: "hex_encode data = concat (map byte_to_hex data)"
    by (simp add: hex_encode_def byte_to_hex_eq[abs_def])
  have f: "byte_to_hex b = [hexdigits ! (unat b div 16), hexdigits ! (unat b mod 16)]"
    by (simp add: byte_to_hex_eq hex_byte_def)
  have g: "set (hex_encode data) \<subseteq> set (ascii ''0123456789ABCDEF'')"
    using hex_encode_digits[of data] by (simp only: hexdigits_def)
  show ?thesis by (intro conjI a b c d e f g)
qed

text \<open>
  C6 as stated fails: when the UART takes only 79 of the 80 characters of the first
  chunk of a 41-byte string, the second chunk is never written, so what is written is
  not the encoding of the string. With the port closed nothing is written at all, and the
  result is false.
\<close>

theorem at_send_hex_short_write_counterexample:
  "is_open (fresh_channel 4) \<and>
   length (chunks 40 (replicate 41 (0xAB::c_char))) = 2 \<and>
   uart_writes (trace (snd (at_send_hex stingy_env (fresh_channel 4) (replicate 41 0xAB)))) =
     [hex_encode (replicate 40 0xAB)] \<and>
   concat (uart_writes (trace (snd (at_send_hex stingy_env (fresh_channel 4) (replicate 41 0xAB)))))
     \<noteq> hex_encode (replicate 41 0xAB) \<and>
   fst (at_send_hex stingy_env (fresh_channel 4) (replicate 41 0xAB)) = False \<and>
   uart_writes (trace (snd (at_send_hex silent_env (closed_channel 4) [0xAB]))) = [] \<and>
   fst (at_send_hex silent_env (closed_channel 4) [0xAB]) = False"
  by code_simp

text \<open>
  C10. For a size of zero \<open>at_send_hex\<close> returns true and leaves the channel as it
  was: it performs no UART write (with the port open, and with the port closed as well).
\<close>

theorem at_send_hex_empty: "at_send_hex env priv [] = (True, priv)"
  by (simp add: at_send_hex_def at_send_hex_loop.simps)

section \<open>Option configuration\<close>

text \<open>
  C1. The header documents \<open>at_config\<close> as returning zero on success and \<open>-1\<close> on
  failure. With one attempt allowed and a modem that answers the probe
  \<^verbatim>\<open>AT+QIMUX?\<close> with \<^verbatim>\<open>+QIMUX: 0\<close> where \<^verbatim>\<open>+QIMUX: 1\<close> is
  expected, \<open>at_config\<close> sends the probe and the setting command, runs out of attempts,
  and returns 0.
\<close>

theorem at_config_exhausted_returns_zero:
  "fst (at_config (modem_env (ascii ''+QIMUX: 0'')) (fresh_channel 16) (ascii ''QIMUX'') (ascii ''1'') 1) = 0 \<and>
   uart_writes (trace (snd (at_config (modem_env (ascii ''+QIMUX: 0'')) (fresh_channel 16)
       (ascii ''QIMUX'') (ascii ''1'') 1))) =
     [ascii ''AT+QIMUX?'' @ [0x0D], ascii ''AT+QIMUX=1'' @ [0x0D]]"
  by code_simp

text \<open>
  More generally, when \<^verbatim>\<open>+<option>: <value>\<close> fits the 32-byte buffer,
  \<open>at_config\<close> returns 0 or \<open>-2\<close> and never \<open>-1\<close>.
\<close>

declare at_config_loop.simps [simp del]

lemma at_config_loop_exhausted:
  "attempts \<le> i \<Longrightarrow> at_config_loop env at option value attempts i = (0, at)"
  by (subst at_config_loop.simps) simp

lemma at_config_loop_status:
  "length (ascii ''+'' @ opt @ ascii '': '' @ val) < 32 \<Longrightarrow>
   fst (at_config_loop env at opt val attempts i) = 0 \<or>
   fst (at_config_loop env at opt val attempts i) = - 2"
proof (induction env at opt val attempts i rule: at_config_loop.induct)
  case (1 env at opt val attempts i)
  show ?case
  proof (cases "i < attempts")
    case False
    then show ?thesis by (simp add: at_config_loop_exhausted)
  next
    case True
    obtain r at1 where p: "at_command env at (ascii ''AT+'' @ opt @ ascii ''?'') = (r, at1)"
      by force
    show ?thesis
    proof (cases r)
      case None
      with True p show ?thesis by (subst at_config_loop.simps) simp
    next
      case (Some resp)
      define expected where "expected = take 31 (ascii ''+'' @ opt @ ascii '': '' @ val)"
      show ?thesis
      proof (cases "strncmp resp expected (strlen expected) = 0")
        case m: True
        with True p Some "1.prems" show ?thesis
          by (subst at_config_loop.simps) (simp add: vsnprintf_def expected_def)
      next
        case m: False
        obtain r2 at2 where q: "at_command env at1 (ascii ''AT+'' @ opt @ ascii ''='' @ val) = (r2, at2)"
          by force
        have "fst (at_config_loop env (emit (TaskDelayMs 1000) at2) opt val attempts (i + 1)) = 0 \<or>
              fst (at_config_loop env (emit (TaskDelayMs 1000) at2) opt val attempts (i + 1)) = - 2"
        proof (rule "1.IH"[of r at1 resp _ expected _ r2 at2])
          show "i < attempts" by (rule True)
          show "(r, at1) = at_command env at (ascii ''AT+'' @ opt @ ascii ''?'')" by (simp add: p)
          show "r = Some resp" by (rule Some)
          show "(expected, int (length (ascii ''+'' @ opt @ ascii '': '' @ val))) =
              (expected, int (length (ascii ''+'' @ opt @ ascii '': '' @ val)))" by (rule refl)
          show "(expected, int (length (ascii ''+'' @ opt @ ascii '': '' @ val))) =
              vsnprintf 32 (ascii ''+'' @ opt @ ascii '': '' @ val)"
            by (simp add: vsnprintf_def expected_def)
          show "\<not> 32 \<le> int (length (ascii ''+'' @ opt @ ascii '': '' @ val))"
            using "1.prems" by simp
          show "strncmp resp expected (strlen expected) \<noteq> 0" by (rule m)
          show "(r2, at2) = at_command env at1 (ascii ''AT+'' @ opt @ ascii ''='' @ val)"
            by (simp add: q)
          show "length (ascii ''+'' @ opt @ ascii '': '' @ val) < 32" by (rule "1.prems")
        qed
        moreover have "at_config_loop env at opt val attempts i =
            at_config_loop env (emit (TaskDelayMs 1000) at2) opt val attempts (i + 1)"
          using True p Some m q "1.prems"
          by (subst at_config_loop.simps) (simp add: vsnprintf_def expected_def)
        ultimately show ?thesis by simp
      qed
    qed
  qed
qed

lemma at_config_status:
  "length (ascii ''+'' @ opt @ ascii '': '' @ val) < 32 \<Longrightarrow>
   fst (at_config env at opt val attempts) = 0 \<or> fst (at_config env at opt val attempts) = - 2"
  by (simp add: at_config_def at_config_loop_status)

end
